theory Spec2Isabelle
  imports Complex_Main
begin

section \<open>The streaming module (kitews.py)\<close>

text \<open>
  Prices are Python floats in the source; they are modelled as exact rationals, so the
  theorems below speak about the arithmetic the code writes down and not about binary
  rounding of the operands. Instrument tokens are Python integers.
\<close>

subsection \<open>Ticks, cached quotes and the module state\<close>

datatype ohlc_t = Ohlc rat rat rat rat

datatype depth_t = Depth "rat list" "rat list"

text \<open>
  A tick is the dictionary the client library hands to the callback; every key may be
  missing, and \<^verbatim>\<open>tick.get(key)\<close> then yields \<^verbatim>\<open>None\<close>.
\<close>

record tick =
  tick_instrument_token :: "int option"
  tick_last_price :: "rat option"
  tick_ohlc :: "ohlc_t option"
  tick_volume_traded :: "int option"
  tick_oi :: "int option"
  tick_depth :: "depth_t option"

text \<open>The dictionary stored per token by \<^verbatim>\<open>on_ticks\<close> (lines 30-38).\<close>

record quote =
  instrument_token :: int
  last_price :: "rat option"
  ohlc :: "ohlc_t option"
  volume :: "int option"
  oi :: "int option"
  depth :: "depth_t option"
  timestamp :: rat

type_synonym quote_dict = "int \<rightharpoonup> quote"

text \<open>
  The client object (\<^verbatim>\<open>kiteconnect.KiteTicker\<close>) is external to the repository. The
  module reads two things from it: \<^verbatim>\<open>is_connected()\<close> and, when present, the attribute
  \<^verbatim>\<open>subscriptions\<close>. The attribute is \<open>None\<close> when the object has no such attribute or
  one that is neither a dict, a list nor a set; otherwise it is \<open>Some S\<close>, with \<open>S\<close> the
  keys of the dict or the elements of the list or set (lines 195-199 read exactly these).
  \<open>tid\<close> tells one client instance from another.
\<close>

record ticker =
  tid :: nat
  is_connected :: bool
  subscriptions :: "int set option"

text \<open>The calls the module makes on the transport, tagged with the instance they go to.\<close>

datatype event =
    Subscribe nat "int set"
  | Unsubscribe nat "int set"
  | SetModeFull nat "int set"
  | Stop nat
  | Connect nat

text \<open>
  The module's globals. \<^verbatim>\<open>live_quotes\<close> is a name bound to a dictionary object:
  \<open>dicts\<close> is the store of dictionary objects, \<open>live_quotes\<close> the address the name is
  bound to, \<open>next_ref\<close> the next unused address. \<open>calls\<close> is the log of transport calls.
\<close>

record ws_state =
  dicts :: "nat \<Rightarrow> quote_dict"
  next_ref :: nat
  live_quotes :: nat
  kws :: "ticker option"
  next_tid :: nat
  access_token_ws :: "string option"
  api_key_ws :: "string option"
  always_subscribed_tokens :: "int set"
  calls :: "event list"

definition initial_state :: ws_state where
  "initial_state =
     \<lparr>dicts = (\<lambda>_. Map.empty), next_ref = 1, live_quotes = 0, kws = None, next_tid = 0,
      access_token_ws = None, api_key_ws = None, always_subscribed_tokens = {},
      calls = []\<rparr>"

text \<open>The dictionary the global name currently denotes.\<close>

definition cache :: "ws_state \<Rightarrow> quote_dict" where
  "cache s = dicts s (live_quotes s)"

subsection \<open>The receive callback\<close>

text \<open>
  One iteration of the loop of \<^verbatim>\<open>on_ticks\<close> (lines 27-38): a falsy token (missing,
  \<^verbatim>\<open>None\<close> or \<open>0\<close>) skips the tick. \<open>now\<close> is the reading of \<^verbatim>\<open>time.time()\<close>.
\<close>

definition store_tick :: "rat \<Rightarrow> tick \<Rightarrow> quote_dict \<Rightarrow> quote_dict" where
  "store_tick now t m =
     (case tick_instrument_token t of
        None \<Rightarrow> m
      | Some tok \<Rightarrow>
          if tok = 0 then m
          else m(tok \<mapsto>
                 \<lparr>instrument_token = tok, last_price = tick_last_price t,
                  ohlc = tick_ohlc t, volume = tick_volume_traded t, oi = tick_oi t,
                  depth = tick_depth t, timestamp = now\<rparr>))"

fun on_ticks_loop :: "rat \<Rightarrow> tick list \<Rightarrow> quote_dict \<Rightarrow> quote_dict" where
  "on_ticks_loop now [] m = m"
| "on_ticks_loop now (t # ts) m = on_ticks_loop now ts (store_tick now t m)"

text \<open>The callback mutates the dictionary object in place.\<close>

definition on_ticks :: "rat \<Rightarrow> tick list \<Rightarrow> ws_state \<Rightarrow> ws_state" where
  "on_ticks now ticks s =
     s\<lparr>dicts := (dicts s)(live_quotes s := on_ticks_loop now ticks (dicts s (live_quotes s)))\<rparr>"

subsection \<open>Reading and clearing the cache\<close>

definition get_live_quote :: "ws_state \<Rightarrow> int \<Rightarrow> quote option" where
  "get_live_quote s tok = dicts s (live_quotes s) tok"

text \<open>\<^verbatim>\<open>get_all_live_quotes\<close> returns the global dictionary object itself: its address.\<close>

definition get_all_live_quotes :: "ws_state \<Rightarrow> nat" where
  "get_all_live_quotes s = live_quotes s"

text \<open>\<^verbatim>\<open>clear_live_quotes\<close> rebinds the global name to a new, empty dictionary.\<close>

definition clear_live_quotes :: "ws_state \<Rightarrow> ws_state" where
  "clear_live_quotes s =
     s\<lparr>dicts := (dicts s)(next_ref s := Map.empty),
       live_quotes := next_ref s,
       next_ref := Suc (next_ref s)\<rparr>"

subsection \<open>The transport\<close>

text \<open>
  What a call does to the client object: a client that exposes its subscription table
  adds the tokens of a subscribe to it and removes those of an unsubscribe.
\<close>

definition transport_subscribe :: "int set \<Rightarrow> ticker \<Rightarrow> ticker" where
  "transport_subscribe toks k = k\<lparr>subscriptions := map_option (\<lambda>S. S \<union> toks) (subscriptions k)\<rparr>"

definition transport_unsubscribe :: "int set \<Rightarrow> ticker \<Rightarrow> ticker" where
  "transport_unsubscribe toks k = k\<lparr>subscriptions := map_option (\<lambda>S. S - toks) (subscriptions k)\<rparr>"

text \<open>
  The set of tokens instance \<open>i\<close> has been told to stream, read off the log of calls.
\<close>

fun apply_event :: "nat \<Rightarrow> event \<Rightarrow> int set \<Rightarrow> int set" where
  "apply_event i (Subscribe j T) A = (if i = j then A \<union> T else A)"
| "apply_event i (Unsubscribe j T) A = (if i = j then A - T else A)"
| "apply_event i (SetModeFull j T) A = A"
| "apply_event i (Stop j) A = (if i = j then {} else A)"
| "apply_event i (Connect j) A = A"

definition transport_active :: "nat \<Rightarrow> event list \<Rightarrow> int set" where
  "transport_active i evs = fold (apply_event i) evs {}"

fun unsubscribed_tokens :: "event list \<Rightarrow> int set" where
  "unsubscribed_tokens [] = {}"
| "unsubscribed_tokens (Unsubscribe j T # evs) = T \<union> unsubscribed_tokens evs"
| "unsubscribed_tokens (e # evs) = unsubscribed_tokens evs"

subsection \<open>Connection callbacks\<close>

text \<open>The library marks the instance connected when the handshake succeeds.\<close>

definition connection_opened :: "ws_state \<Rightarrow> ws_state" where
  "connection_opened s =
     (case kws s of None \<Rightarrow> s | Some k \<Rightarrow> s\<lparr>kws := Some (k\<lparr>is_connected := True\<rparr>)\<rparr>)"

text \<open>\<^verbatim>\<open>on_connect\<close> (lines 41-51), called on the instance that connected.\<close>

definition on_connect :: "ws_state \<Rightarrow> ws_state" where
  "on_connect s =
     (case kws s of
        None \<Rightarrow> s
      | Some k \<Rightarrow>
          if always_subscribed_tokens s \<noteq> {} then
            s\<lparr>kws := Some (transport_subscribe (always_subscribed_tokens s) k),
              calls := calls s @ [Subscribe (tid k) (always_subscribed_tokens s),
                                  SetModeFull (tid k) (always_subscribed_tokens s)]\<rparr>
          else s)"

subsection \<open>Starting and stopping\<close>

text \<open>Python truthiness of a string argument: \<^verbatim>\<open>None\<close> and the empty string are falsy.\<close>

definition falsy_str :: "string option \<Rightarrow> bool" where
  "falsy_str v = (case v of None \<Rightarrow> True | Some str \<Rightarrow> str = [])"

text \<open>
  \<^verbatim>\<open>start_websocket\<close> (lines 125-166). \<open>fresh_subscriptions\<close> is the \<^verbatim>\<open>subscriptions\<close>
  attribute of a newly constructed client object, which the constructor of the external
  library decides. Starting the daemon thread is logged as \<open>Connect\<close>.
\<close>

definition start_websocket ::
  "int set option \<Rightarrow> string option \<Rightarrow> string option \<Rightarrow> int list option \<Rightarrow> ws_state \<Rightarrow> ws_state"
where
  "start_websocket fresh_subscriptions api_k access_t initial_tokens s =
     (let s1 = s\<lparr>api_key_ws := api_k, access_token_ws := access_t\<rparr> in
      if falsy_str api_k \<or> falsy_str access_t then s1
      else
        let stopped = (case kws s1 of
                         None \<Rightarrow> []
                       | Some k \<Rightarrow> if is_connected k then [Stop (tid k)] else []);
            new_kws = \<lparr>tid = next_tid s1, is_connected = False,
                       subscriptions = fresh_subscriptions\<rparr>;
            always = (case initial_tokens of
                        None \<Rightarrow> always_subscribed_tokens s1
                      | Some toks \<Rightarrow>
                          if toks \<noteq> [] then always_subscribed_tokens s1 \<union> set toks
                          else always_subscribed_tokens s1)
        in s1\<lparr>kws := Some new_kws,
               next_tid := Suc (next_tid s1),
               always_subscribed_tokens := always,
               calls := calls s1 @ stopped @ [Connect (next_tid s1)]\<rparr>)"

text \<open>\<^verbatim>\<open>stop_websocket\<close> (lines 168-183).\<close>

definition stop_websocket :: "ws_state \<Rightarrow> ws_state" where
  "stop_websocket s =
     (case kws s of
        None \<Rightarrow> s
      | Some k \<Rightarrow>
          if is_connected k then
            s\<lparr>kws := None, always_subscribed_tokens := {},
              calls := calls s @ [Stop (tid k)]\<rparr>
          else s\<lparr>kws := None, always_subscribed_tokens := {}\<rparr>)"

subsection \<open>Reconciling subscriptions\<close>

text \<open>Lines 193-199: the subscriptions the module believes are current.\<close>

definition current_subscriptions :: "ticker \<Rightarrow> int set" where
  "current_subscriptions k = (case subscriptions k of None \<Rightarrow> {} | Some S \<Rightarrow> S)"

text \<open>
  \<^verbatim>\<open>subscribe_to_tokens\<close> (lines 185-225). The token lists handed to the transport are
  built with \<^verbatim>\<open>list(set(...))\<close>, so only their elements are determined: they are sets here.
  The transport calls are taken to return: the source catches and logs an exception of
  \<^verbatim>\<open>unsubscribe\<close> and goes on (lines 212-215).
\<close>

definition subscribe_to_tokens :: "int list \<Rightarrow> ws_state \<Rightarrow> ws_state" where
  "subscribe_to_tokens tokens s =
     (case kws s of
        None \<Rightarrow> s
      | Some k \<Rightarrow>
          if is_connected k then
            let current = current_subscriptions k;
                all_tokens_to_subscribe = always_subscribed_tokens s \<union> set tokens;
                tokens_to_unsubscribe = current - all_tokens_to_subscribe;
                tokens_to_add = all_tokens_to_subscribe - current;
                k1 = (if tokens_to_unsubscribe \<noteq> {}
                      then transport_unsubscribe tokens_to_unsubscribe k else k);
                ev1 = (if tokens_to_unsubscribe \<noteq> {}
                       then [Unsubscribe (tid k) tokens_to_unsubscribe] else []);
                k2 = (if tokens_to_add \<noteq> {}
                      then transport_subscribe tokens_to_add k1 else k1);
                ev2 = (if tokens_to_add \<noteq> {}
                       then [Subscribe (tid k) tokens_to_add, SetModeFull (tid k) tokens_to_add]
                       else [])
            in s\<lparr>kws := Some k2, calls := calls s @ ev1 @ ev2\<rparr>
          else s)"

section \<open>Window selection (plot_option_chain in kite1.py)\<close>

text \<open>
  The model covers lines 867-972 of \<^verbatim>\<open>plot_option_chain\<close>: the choice of the strikes to
  display, after the guards on login, instrument master, selected index and expiry have
  passed. An exception raised there is caught by the handler at the end of the function,
  which returns an error message instead of a table.
\<close>

datatype py_error = ZeroDivisionError | ValueError

datatype outcome =
    NoOptionsFound
  | NoStrikesToDisplay
  | ErrorGeneratingChain py_error
  | Window "rat list"

subsection \<open>Python primitives used by the selection\<close>

text \<open>Python's \<^verbatim>\<open>round\<close> of one argument: to the nearest integer, ties to the even one.\<close>

definition py_round :: "rat \<Rightarrow> int" where
  "py_round x =
     (let f = \<lfloor>x\<rfloor>; d = x - of_int f in
      if d < 1 / 2 then f
      else if 1 / 2 < d then f + 1
      else if even f then f else f + 1)"

text \<open>\<^verbatim>\<open>list.index\<close>: the position of the first occurrence; \<open>None\<close> stands for ValueError.\<close>

fun index_of :: "'a list \<Rightarrow> 'a \<Rightarrow> nat option" where
  "index_of [] v = None"
| "index_of (x # xs) v = (if x = v then Some 0 else map_option Suc (index_of xs v))"

text \<open>\<^verbatim>\<open>min(xs, key=...)\<close>: the first element whose key is least; ValueError on \<open>[]\<close>.\<close>

fun min_key_from :: "('a \<Rightarrow> rat) \<Rightarrow> 'a \<Rightarrow> 'a list \<Rightarrow> 'a" where
  "min_key_from key best [] = best"
| "min_key_from key best (x # xs) =
     min_key_from key (if key x < key best then x else best) xs"

definition py_min_key :: "('a \<Rightarrow> rat) \<Rightarrow> 'a list \<Rightarrow> py_error + 'a" where
  "py_min_key key xs =
     (case xs of [] \<Rightarrow> Inl ValueError | x # rest \<Rightarrow> Inr (min_key_from key x rest))"

text \<open>\<^verbatim>\<open>xs[a:b]\<close>: a negative bound counts from the end, and both are clamped.\<close>

definition py_slice :: "'a list \<Rightarrow> int \<Rightarrow> int \<Rightarrow> 'a list" where
  "py_slice xs a b =
     (let n = int (length xs);
          lo = (if a < 0 then max 0 (a + n) else min a n);
          hi = (if b < 0 then max 0 (b + n) else min b n)
      in take (nat (hi - lo)) (drop (nat lo) xs))"

subsection \<open>The reference price\<close>

text \<open>
  Lines 897-907: up to \<open>max_retries\<close> reads of the cache. \<open>observe i\<close> is what
  \<^verbatim>\<open>kitews.get_live_quote(underlying_token)\<close> returns at attempt \<open>i\<close> (the feed may fill
  the cache between attempts). A cached quote ends the loop, whatever its price field.
\<close>

definition max_retries :: nat where
  "max_retries = 3"

fun poll_live_quote :: "(nat \<Rightarrow> quote option) \<Rightarrow> nat \<Rightarrow> nat \<Rightarrow> rat option" where
  "poll_live_quote observe attempt 0 = None"
| "poll_live_quote observe attempt (Suc remaining) =
     (case observe attempt of
        None \<Rightarrow> poll_live_quote observe (Suc attempt) remaining
      | Some q \<Rightarrow> last_price q)"

text \<open>
  Lines 909-919: without a price from the cache the REST quote is used. \<open>rest_ltp\<close> is
  the result of the guarded REST call: \<open>None\<close> when it raised or had no entry for the
  symbol, otherwise the price it returned.
\<close>

definition resolve_ltp :: "(nat \<Rightarrow> quote option) \<Rightarrow> rat option \<Rightarrow> rat option" where
  "resolve_ltp observe rest_ltp =
     (case poll_live_quote observe 0 max_retries of
        Some p \<Rightarrow> Some p
      | None \<Rightarrow> rest_ltp)"

subsection \<open>The anchor and the window\<close>

text \<open>Lines 868-869: an absent or negative count becomes 5.\<close>

definition normalise_otm :: "int option \<Rightarrow> int" where
  "normalise_otm v = (case v of None \<Rightarrow> 5 | Some n \<Rightarrow> if n < 0 then 5 else n)"

text \<open>Lines 941-950: the anchor strike and its index in the sorted strike list.\<close>

definition locate_atm :: "rat list \<Rightarrow> rat \<Rightarrow> int \<Rightarrow> py_error + (rat \<times> nat)" where
  "locate_atm strikes current_ltp strike_step =
     (if strike_step = 0 then Inl ZeroDivisionError
      else
        let atm_strike = of_int (py_round (current_ltp / of_int strike_step) * strike_step) in
        case index_of strikes atm_strike of
          Some i \<Rightarrow> Inr (atm_strike, i)
        | None \<Rightarrow>
            (case py_min_key (\<lambda>x. \<bar>x - current_ltp\<bar>) strikes of
               Inl e \<Rightarrow> Inl e
             | Inr closest \<Rightarrow>
                 (case index_of strikes closest of
                    Some i \<Rightarrow> Inr (closest, i)
                  | None \<Rightarrow> Inl ValueError)))"

text \<open>Lines 952-965: the strikes around index \<open>atm_idx\<close>.\<close>

definition window_around :: "rat list \<Rightarrow> int \<Rightarrow> int \<Rightarrow> rat list" where
  "window_around strikes atm_idx num_otm_strikes =
     (let display_window_size = 2 * num_otm_strikes + 1;
          start_idx = max 0 (atm_idx - num_otm_strikes);
          end_idx = min (int (length strikes)) (atm_idx + num_otm_strikes + 1);
          start_idx = (if end_idx - start_idx < display_window_size
                       then max 0 (end_idx - display_window_size) else start_idx);
          display_strikes = py_slice strikes start_idx end_idx
      in if int (length display_strikes) < display_window_size
            \<and> display_window_size \<le> int (length strikes)
         then py_slice strikes 0 display_window_size
         else display_strikes)"

text \<open>
  Lines 921-972. \<open>option_strikes\<close> are the strike values of the option rows found for the
  underlying and the expiry, one per row.
\<close>

definition select_strikes :: "int option \<Rightarrow> rat option \<Rightarrow> int \<Rightarrow> rat list \<Rightarrow> outcome" where
  "select_strikes num_otm current_ltp strike_step option_strikes =
     (let num_otm_strikes = normalise_otm num_otm;
          display_window_size = 2 * num_otm_strikes + 1
      in if option_strikes = [] then NoOptionsFound
         else
           let strikes = sort (remdups option_strikes);
               windowed = (case current_ltp of
                             None \<Rightarrow> Inr []
                           | Some ltp \<Rightarrow>
                               (case locate_atm strikes ltp strike_step of
                                  Inl e \<Rightarrow> Inl e
                                | Inr (atm_strike, atm_idx) \<Rightarrow>
                                    Inr (window_around strikes (int atm_idx) num_otm_strikes)))
           in case windowed of
                Inl e \<Rightarrow> ErrorGeneratingChain e
              | Inr display_strikes \<Rightarrow>
                  let display_strikes =
                        (if display_strikes = [] \<and> strikes \<noteq> []
                         then py_slice strikes 0 (min (int (length strikes)) display_window_size)
                         else display_strikes)
                  in if display_strikes = [] then NoStrikesToDisplay
                     else Window display_strikes)"

definition plot_option_chain_window ::
  "int option \<Rightarrow> (nat \<Rightarrow> quote option) \<Rightarrow> rat option \<Rightarrow> int \<Rightarrow> rat list \<Rightarrow> outcome"
where
  "plot_option_chain_window num_otm observe rest_ltp strike_step option_strikes =
     select_strikes num_otm (resolve_ltp observe rest_ltp) strike_step option_strikes"

section \<open>Notions used in the statements\<close>

text \<open>The test \<^verbatim>\<open>kws and kws.is_connected()\<close> that guards every use of the transport.\<close>

definition ws_connected :: "ws_state \<Rightarrow> bool" where
  "ws_connected s = (case kws s of None \<Rightarrow> False | Some k \<Rightarrow> is_connected k)"

text \<open>The transport calls logged on the way from state \<open>s\<close> to state \<open>s'\<close>.\<close>

definition new_calls :: "ws_state \<Rightarrow> ws_state \<Rightarrow> event list" where
  "new_calls s s' = drop (length (calls s)) (calls s')"

text \<open>Every key of the cache is a non-zero token, and it is the token of its entry.\<close>

definition cache_keys_ok :: "quote_dict \<Rightarrow> bool" where
  "cache_keys_ok m = (\<forall>tok q. m tok = Some q \<longrightarrow> tok \<noteq> 0 \<and> instrument_token q = tok)"

text \<open>The tokens of a batch that pass the truthiness test of \<^verbatim>\<open>on_ticks\<close>.\<close>

definition truthy_tokens :: "tick list \<Rightarrow> int set" where
  "truthy_tokens ticks = {tok. tok \<noteq> 0 \<and> Some tok \<in> tick_instrument_token ` set ticks}"

text \<open>Tokens are held for permanent subscription only while a client object exists.\<close>

definition module_inv :: "ws_state \<Rightarrow> bool" where
  "module_inv s = (kws s = None \<longrightarrow> always_subscribed_tokens s = {})"

text \<open>The cache has no quote for the underlying at any of the attempts of the retry loop.\<close>

definition no_cached_quote :: "(nat \<Rightarrow> quote option) \<Rightarrow> bool" where
  "no_cached_quote observe = (\<forall>i<max_retries. observe i = None)"

subsection \<open>Example states\<close>

text \<open>A tick for NIFTY (token 256265) at 24853.\<close>

definition nifty_tick :: tick where
  "nifty_tick =
     \<lparr>tick_instrument_token = Some 256265, tick_last_price = Some 24853,
      tick_ohlc = None, tick_volume_traded = None, tick_oi = None, tick_depth = None\<rparr>"

text \<open>
  The module after \<^verbatim>\<open>start_websocket(key, token, [256265])\<close> at load time, and after the
  handshake and \<^verbatim>\<open>on_connect\<close>. \<open>fresh\<close> is the subscription table of a new client object
  (\<open>None\<close>: the client has no \<^verbatim>\<open>subscriptions\<close> attribute).
\<close>

definition started_state :: "int set option \<Rightarrow> ws_state" where
  "started_state fresh =
     start_websocket fresh (Some ''key'') (Some ''token'') (Some [256265]) initial_state"

definition connected_state :: "int set option \<Rightarrow> ws_state" where
  "connected_state fresh = on_connect (connection_opened (started_state fresh))"

text \<open>The connected module after one tick for NIFTY has arrived.\<close>

definition ticking_state :: ws_state where
  "ticking_state = on_ticks 0 [nifty_tick] (connected_state (Some {}))"

subsection \<open>Reachable module states\<close>

text \<open>The states the module can be in: its functions and callbacks, run from load time.\<close>

inductive reachable :: "ws_state \<Rightarrow> bool" where
  r_init: "reachable initial_state"
| r_start: "reachable s \<Longrightarrow> reachable (start_websocket fresh api_k access_t initial_tokens s)"
| r_stop: "reachable s \<Longrightarrow> reachable (stop_websocket s)"
| r_subscribe: "reachable s \<Longrightarrow> reachable (subscribe_to_tokens tokens s)"
| r_ticks: "reachable s \<Longrightarrow> reachable (on_ticks now ticks s)"
| r_clear: "reachable s \<Longrightarrow> reachable (clear_live_quotes s)"
| r_opened: "reachable s \<Longrightarrow> reachable (connection_opened s)"
| r_connect: "reachable s \<Longrightarrow> reachable (on_connect s)"

section \<open>Properties of the streaming module\<close>

subsection \<open>The example states, computed\<close>

lemma started_state_eq:
  "started_state fresh =
     \<lparr>dicts = (\<lambda>_. Map.empty), next_ref = 1, live_quotes = 0,
      kws = Some \<lparr>tid = 0, is_connected = False, subscriptions = fresh\<rparr>, next_tid = 1,
      access_token_ws = Some ''token'', api_key_ws = Some ''key'',
      always_subscribed_tokens = {256265}, calls = [Connect 0]\<rparr>"
  by (simp add: started_state_def start_websocket_def initial_state_def falsy_str_def Let_def)

lemma connected_state_eq:
  "connected_state fresh =
     \<lparr>dicts = (\<lambda>_. Map.empty), next_ref = 1, live_quotes = 0,
      kws = Some \<lparr>tid = 0, is_connected = True,
                  subscriptions = map_option (\<lambda>S. S \<union> {256265}) fresh\<rparr>, next_tid = 1,
      access_token_ws = Some ''token'', api_key_ws = Some ''key'',
      always_subscribed_tokens = {256265},
      calls = [Connect 0, Subscribe 0 {256265}, SetModeFull 0 {256265}]\<rparr>"
  by (simp add: connected_state_def started_state_eq connection_opened_def on_connect_def
      transport_subscribe_def)

subsection \<open>The receive callback\<close>

lemma store_tick_keys_ok: "cache_keys_ok m \<Longrightarrow> cache_keys_ok (store_tick now t m)"
  by (auto simp: cache_keys_ok_def store_tick_def split: option.splits)

lemma on_ticks_loop_keys_ok: "cache_keys_ok m \<Longrightarrow> cache_keys_ok (on_ticks_loop now ticks m)"
  by (induction ticks arbitrary: m) (simp_all add: store_tick_keys_ok)

lemma dom_store_tick: "dom (store_tick now t m) = dom m \<union> truthy_tokens [t]"
  by (auto simp: store_tick_def truthy_tokens_def split: option.splits)

lemma truthy_tokens_Cons: "truthy_tokens (t # ts) = truthy_tokens [t] \<union> truthy_tokens ts"
  by (auto simp: truthy_tokens_def)

lemma dom_on_ticks_loop: "dom (on_ticks_loop now ticks m) = dom m \<union> truthy_tokens ticks"
proof (induction ticks arbitrary: m)
  case Nil
  show ?case by (simp add: truthy_tokens_def)
next
  case (Cons t ts)
  show ?case
    using Cons.IH [of "store_tick now t m"] truthy_tokens_Cons [of t ts]
    by (simp add: dom_store_tick Un_assoc)
qed

lemma store_tick_other:
  "tok \<notin> truthy_tokens [t] \<Longrightarrow> store_tick now t m tok = m tok"
  by (auto simp: store_tick_def truthy_tokens_def split: option.splits)

lemma on_ticks_loop_other:
  "tok \<notin> truthy_tokens ticks \<Longrightarrow> on_ticks_loop now ticks m tok = m tok"
proof (induction ticks arbitrary: m)
  case Nil
  show ?case by simp
next
  case (Cons t ts)
  from Cons.prems have "tok \<notin> truthy_tokens [t]" and "tok \<notin> truthy_tokens ts"
    using truthy_tokens_Cons [of t ts] by auto
  then show ?case
    using Cons.IH [of "store_tick now t m"] by (simp add: store_tick_other)
qed

lemma cache_on_ticks: "cache (on_ticks now ticks s) = on_ticks_loop now ticks (cache s)"
  by (simp add: cache_def on_ticks_def)

text \<open>
  C10. A batch of ticks adds to the cache exactly the non-zero tokens it carries: a tick
  whose token is missing, \<^verbatim>\<open>None\<close> or zero inserts nothing and changes no entry, and
  every entry is stored under the token it records. So a cache whose keys are non-zero
  tokens matching their entries stays so.
\<close>

theorem on_ticks_keys:
  assumes "cache_keys_ok (cache s)"
  shows "cache_keys_ok (cache (on_ticks now ticks s))
       \<and> dom (cache (on_ticks now ticks s)) = dom (cache s) \<union> truthy_tokens ticks
       \<and> (\<forall>tok. tok \<notin> truthy_tokens ticks \<longrightarrow>
            cache (on_ticks now ticks s) tok = cache s tok)"
  using assms
  by (simp add: cache_on_ticks on_ticks_loop_keys_ok dom_on_ticks_loop on_ticks_loop_other)

theorem on_ticks_keys_witness:
  "cache_keys_ok (cache initial_state)
   \<and> dom (cache (on_ticks 0
        [nifty_tick, nifty_tick\<lparr>tick_instrument_token := Some 0\<rparr>,
         nifty_tick\<lparr>tick_instrument_token := None\<rparr>] initial_state)) = {256265}"
proof -
  have ok: "cache_keys_ok (cache initial_state)"
    by (simp add: cache_keys_ok_def cache_def initial_state_def)
  have toks: "truthy_tokens [nifty_tick, nifty_tick\<lparr>tick_instrument_token := Some 0\<rparr>,
                nifty_tick\<lparr>tick_instrument_token := None\<rparr>] = {256265}"
    by (auto simp: truthy_tokens_def nifty_tick_def)
  have "dom (cache initial_state) = {}"
    by (simp add: cache_def initial_state_def)
  then show ?thesis
    using ok toks on_ticks_keys [OF ok, of 0
        "[nifty_tick, nifty_tick\<lparr>tick_instrument_token := Some 0\<rparr>,
          nifty_tick\<lparr>tick_instrument_token := None\<rparr>]"]
    by simp
qed

text \<open>The keys of the cache are in order in every state the module can reach.\<close>

lemma reachable_cache_keys_ok: "reachable s \<Longrightarrow> cache_keys_ok (cache s)"
proof (induction rule: reachable.induct)
  case r_init
  show ?case by (simp add: cache_keys_ok_def cache_def initial_state_def)
next
  case (r_start s fresh api_k access_t initial_tokens)
  then show ?case by (simp add: cache_def start_websocket_def Let_def)
next
  case (r_stop s)
  then show ?case by (simp add: cache_def stop_websocket_def split: option.splits)
next
  case (r_subscribe s tokens)
  then show ?case by (simp add: cache_def subscribe_to_tokens_def Let_def split: option.splits)
next
  case (r_ticks s now ticks)
  then show ?case by (simp add: cache_on_ticks on_ticks_loop_keys_ok)
next
  case (r_clear s)
  show ?case by (simp add: cache_def clear_live_quotes_def cache_keys_ok_def)
next
  case (r_opened s)
  then show ?case by (simp add: cache_def connection_opened_def split: option.splits)
next
  case (r_connect s)
  then show ?case by (simp add: cache_def on_connect_def split: option.splits)
qed

subsection \<open>Reconciling while not connected\<close>

text \<open>
  C2, as stated, at a concrete input: with the permanent set {256265} and a client that
  is not connected, \<^verbatim>\<open>subscribe_to_tokens([260105])\<close> leaves the module state as it was,
  so the request is recorded nowhere, and the next connect subscribes 256265 only.
\<close>

theorem subscribe_to_tokens_not_connected_drops_request:
  "subscribe_to_tokens [260105] (started_state (Some {})) = started_state (Some {})
   \<and> calls (on_connect (connection_opened
               (subscribe_to_tokens [260105] (started_state (Some {})))))
       = [Connect 0, Subscribe 0 {256265}, SetModeFull 0 {256265}]"
  by (simp add: started_state_eq subscribe_to_tokens_def connection_opened_def on_connect_def
      transport_subscribe_def)

text \<open>
  C2, amended. When the connection is not connected, \<^verbatim>\<open>subscribe_to_tokens\<close> changes
  nothing: no transport call is made and the requested tokens are not recorded; the next
  successful connect subscribes the permanent set only (and nothing when it is empty).
\<close>

theorem subscribe_to_tokens_not_connected:
  assumes "\<not> ws_connected s"
  shows "subscribe_to_tokens tokens s = s
       \<and> new_calls s (on_connect (connection_opened (subscribe_to_tokens tokens s)))
           = (case kws s of
                None \<Rightarrow> []
              | Some k \<Rightarrow>
                  if always_subscribed_tokens s = {} then []
                  else [Subscribe (tid k) (always_subscribed_tokens s),
                        SetModeFull (tid k) (always_subscribed_tokens s)])"
proof -
  have same: "subscribe_to_tokens tokens s = s"
    using assms by (simp add: subscribe_to_tokens_def ws_connected_def split: option.splits)
  show ?thesis
    unfolding same
    by (simp add: new_calls_def connection_opened_def on_connect_def split: option.splits)
qed

theorem subscribe_to_tokens_not_connected_witness:
  "\<not> ws_connected (started_state (Some {}))
   \<and> subscribe_to_tokens [260105] (started_state (Some {})) = started_state (Some {})"
  using subscribe_to_tokens_not_connected [of "started_state (Some {})" "[260105]"]
  by (simp add: ws_connected_def started_state_eq)

subsection \<open>Reconciling while connected\<close>

lemma transport_active_append:
  "transport_active i (evs @ evs') = fold (apply_event i) evs' (transport_active i evs)"
  by (simp add: transport_active_def)

lemma calls_subscribe_to_tokens:
  assumes "kws s = Some k" and "is_connected k"
  shows "calls (subscribe_to_tokens tokens s) =
     calls s
     @ (if current_subscriptions k - (always_subscribed_tokens s \<union> set tokens) \<noteq> {}
        then [Unsubscribe (tid k)
               (current_subscriptions k - (always_subscribed_tokens s \<union> set tokens))]
        else [])
     @ (if always_subscribed_tokens s \<union> set tokens - current_subscriptions k \<noteq> {}
        then [Subscribe (tid k)
                (always_subscribed_tokens s \<union> set tokens - current_subscriptions k),
              SetModeFull (tid k)
                (always_subscribed_tokens s \<union> set tokens - current_subscriptions k)]
        else [])"
  using assms by (simp add: subscribe_to_tokens_def Let_def)

lemma reconcile_sets:
  fixes S P :: "int set"
  shows "(S - (S - P)) \<union> (P - S) = P"
    and "S - P = {} \<Longrightarrow> S \<union> (P - S) = P"
    and "P - S = {} \<Longrightarrow> S - (S - P) = P"
    and "S - P = {} \<Longrightarrow> P - S = {} \<Longrightarrow> S = P"
  by blast+

lemma kws_subscribe_to_tokens:
  assumes "kws s = Some k" and "is_connected k" and "subscriptions k = Some S"
  shows "kws (subscribe_to_tokens tokens s) =
     Some (k\<lparr>subscriptions := Some (always_subscribed_tokens s \<union> set tokens)\<rparr>)"
proof -
  let ?P = "always_subscribed_tokens s \<union> set tokens"
  have cur: "current_subscriptions k = S"
    using assms(3) by (simp add: current_subscriptions_def)
  consider "S - ?P \<noteq> {}" "?P - S \<noteq> {}" | "S - ?P = {}" "?P - S \<noteq> {}"
    | "S - ?P \<noteq> {}" "?P - S = {}" | "S - ?P = {}" "?P - S = {}"
    by blast
  then show ?thesis
  proof cases
    case 1
    then show ?thesis
      using assms cur reconcile_sets(1) [of S ?P]
      by (simp add: subscribe_to_tokens_def Let_def transport_subscribe_def
          transport_unsubscribe_def)
  next
    case 2
    then show ?thesis
      using assms cur reconcile_sets(2) [of S ?P]
      by (simp add: subscribe_to_tokens_def Let_def transport_subscribe_def
          transport_unsubscribe_def)
  next
    case 3
    then show ?thesis
      using assms cur reconcile_sets(3) [of ?P S]
      by (simp add: subscribe_to_tokens_def Let_def transport_subscribe_def
          transport_unsubscribe_def)
  next
    case 4
    then have "S = ?P" by (rule reconcile_sets(4))
    with 4 show ?thesis
      using assms cur
      by (simp add: subscribe_to_tokens_def Let_def transport_subscribe_def
          transport_unsubscribe_def)
  qed
qed

lemma always_subscribe_to_tokens:
  "always_subscribed_tokens (subscribe_to_tokens tokens s) = always_subscribed_tokens s"
  by (simp add: subscribe_to_tokens_def Let_def split: option.splits)

lemma new_calls_append: "calls s' = calls s @ evs \<Longrightarrow> new_calls s s' = evs"
  by (simp add: new_calls_def)

lemma kws_subscribe_to_tokens_no_table:
  assumes "kws s = Some k" and "is_connected k" and "subscriptions k = None"
  shows "kws (subscribe_to_tokens tokens s) = Some k"
  using assms
  by (simp add: subscribe_to_tokens_def Let_def current_subscriptions_def
      transport_subscribe_def transport_unsubscribe_def)

lemma new_calls_no_table:
  assumes "kws s = Some k" and "is_connected k" and "subscriptions k = None"
  shows "new_calls s (subscribe_to_tokens tokens s) =
     (if always_subscribed_tokens s \<union> set tokens = {} then []
      else [Subscribe (tid k) (always_subscribed_tokens s \<union> set tokens),
            SetModeFull (tid k) (always_subscribed_tokens s \<union> set tokens)])"
proof -
  have cur: "current_subscriptions k = {}"
    using assms(3) by (simp add: current_subscriptions_def)
  show ?thesis
    unfolding new_calls_append [OF calls_subscribe_to_tokens [OF assms(1,2), of tokens]] cur
    by simp
qed

text \<open>
  C3, as stated, at a concrete input: a connected client without a \<^verbatim>\<open>subscriptions\<close>
  attribute, permanent set {256265}. After \<^verbatim>\<open>subscribe_to_tokens([260105])\<close> and then
  \<^verbatim>\<open>subscribe_to_tokens([])\<close> the transport still streams 260105, although the permanent
  set joined with the request is {256265}: the second call issues a subscribe for 256265
  and no unsubscribe.
\<close>

theorem subscribe_to_tokens_without_table_keeps_stale:
  "transport_active 0
     (calls (subscribe_to_tokens [] (subscribe_to_tokens [260105] (connected_state None))))
   = {256265, 260105}
  \<and> always_subscribed_tokens
       (subscribe_to_tokens [] (subscribe_to_tokens [260105] (connected_state None))) \<union> set []
     = {256265}
  \<and> new_calls (subscribe_to_tokens [260105] (connected_state None))
       (subscribe_to_tokens [] (subscribe_to_tokens [260105] (connected_state None)))
     = [Subscribe 0 {256265}, SetModeFull 0 {256265}]"
  by (simp add: connected_state_eq subscribe_to_tokens_def Let_def current_subscriptions_def
      transport_subscribe_def transport_unsubscribe_def transport_active_def new_calls_def
      insert_commute)

text \<open>
  C3, amended. After \<^verbatim>\<open>subscribe_to_tokens(R)\<close> on a connected client whose
  \<^verbatim>\<open>subscriptions\<close> table shows what the transport streams, the table and the streamed
  set both equal the permanent set joined with \<open>R\<close>, so they contain the permanent set.
  Whatever the client exposes, no permanent token is passed to unsubscribe. On a client
  without the table the module reads the active set as empty: it makes no unsubscribe call
  and subscribes the whole of the permanent set joined with \<open>R\<close>.
\<close>

theorem subscribe_to_tokens_active:
  assumes "kws s = Some k" and "is_connected k"
  shows "(subscriptions k = Some (transport_active (tid k) (calls s)) \<longrightarrow>
            kws (subscribe_to_tokens tokens s) =
              Some (k\<lparr>subscriptions := Some (always_subscribed_tokens s \<union> set tokens)\<rparr>)
          \<and> transport_active (tid k) (calls (subscribe_to_tokens tokens s)) =
              always_subscribed_tokens s \<union> set tokens
          \<and> always_subscribed_tokens s
              \<subseteq> transport_active (tid k) (calls (subscribe_to_tokens tokens s)))
       \<and> unsubscribed_tokens (new_calls s (subscribe_to_tokens tokens s))
           \<inter> always_subscribed_tokens s = {}
       \<and> (subscriptions k = None \<longrightarrow>
            new_calls s (subscribe_to_tokens tokens s) =
              (if always_subscribed_tokens s \<union> set tokens = {} then []
               else [Subscribe (tid k) (always_subscribed_tokens s \<union> set tokens),
                     SetModeFull (tid k) (always_subscribed_tokens s \<union> set tokens)]))"
proof -
  let ?P = "always_subscribed_tokens s \<union> set tokens"
  let ?cur = "current_subscriptions k"
  note c = calls_subscribe_to_tokens [OF assms, of tokens]
  have unsub: "unsubscribed_tokens (new_calls s (subscribe_to_tokens tokens s))
                 \<inter> always_subscribed_tokens s = {}"
    unfolding new_calls_append [OF c] by auto
  have act: "transport_active (tid k) (calls (subscribe_to_tokens tokens s)) = ?P"
    if "subscriptions k = Some (transport_active (tid k) (calls s))"
  proof -
    from that have cur: "?cur = transport_active (tid k) (calls s)"
      by (simp add: current_subscriptions_def)
    show ?thesis
      unfolding c transport_active_append cur [symmetric] by auto
  qed
  have tbl: "kws (subscribe_to_tokens tokens s) = Some (k\<lparr>subscriptions := Some ?P\<rparr>)"
    if "subscriptions k = Some (transport_active (tid k) (calls s))"
    by (rule kws_subscribe_to_tokens [OF assms that])
  have none: "new_calls s (subscribe_to_tokens tokens s) =
              (if ?P = {} then [] else [Subscribe (tid k) ?P, SetModeFull (tid k) ?P])"
    if "subscriptions k = None"
    by (rule new_calls_no_table [OF assms that])
  show ?thesis
  proof (intro conjI impI)
    assume t: "subscriptions k = Some (transport_active (tid k) (calls s))"
    show "kws (subscribe_to_tokens tokens s) = Some (k\<lparr>subscriptions := Some ?P\<rparr>)"
      by (rule tbl [OF t])
    show "transport_active (tid k) (calls (subscribe_to_tokens tokens s)) = ?P"
      by (rule act [OF t])
    show "always_subscribed_tokens s
            \<subseteq> transport_active (tid k) (calls (subscribe_to_tokens tokens s))"
      unfolding act [OF t] by simp
  next
    show "unsubscribed_tokens (new_calls s (subscribe_to_tokens tokens s))
           \<inter> always_subscribed_tokens s = {}"
      by (rule unsub)
  next
    assume "subscriptions k = None"
    then show "new_calls s (subscribe_to_tokens tokens s) =
              (if ?P = {} then [] else [Subscribe (tid k) ?P, SetModeFull (tid k) ?P])"
      by (rule none)
  qed
qed

lemma transport_active_connected: "transport_active 0 (calls (connected_state fresh)) = {256265}"
  by (simp add: connected_state_eq transport_active_def)

theorem subscribe_to_tokens_active_witness:
  "kws (connected_state (Some {})) = Some \<lparr>tid = 0, is_connected = True, subscriptions = Some {256265}\<rparr>
  \<and> transport_active 0 (calls (subscribe_to_tokens [260105] (connected_state (Some {})))) = {256265, 260105}"
proof -
  have k: "kws (connected_state (Some {})) = Some \<lparr>tid = 0, is_connected = True, subscriptions = Some {256265}\<rparr>"
    by (simp add: connected_state_eq)
  have a: "always_subscribed_tokens (connected_state (Some {})) = {256265}"
    by (simp add: connected_state_eq)
  show ?thesis
    using k subscribe_to_tokens_active [OF k, of "[260105]"] transport_active_connected [of "Some {}"] a
    by (simp add: insert_commute)
qed

text \<open>
  C4, as stated, at a concrete input: a connected client without a \<^verbatim>\<open>subscriptions\<close>
  attribute, permanent set {256265}. The second of two calls
  \<^verbatim>\<open>subscribe_to_tokens([260105])\<close> subscribes both tokens again and sets their mode.
\<close>

theorem subscribe_to_tokens_twice_without_table:
  "ws_connected (connected_state None)
   \<and> new_calls (subscribe_to_tokens [260105] (connected_state None))
       (subscribe_to_tokens [260105] (subscribe_to_tokens [260105] (connected_state None)))
     = [Subscribe 0 {256265, 260105}, SetModeFull 0 {256265, 260105}]"
  by (simp add: connected_state_eq subscribe_to_tokens_def Let_def current_subscriptions_def
      transport_subscribe_def transport_unsubscribe_def new_calls_def ws_connected_def
      insert_commute)

text \<open>
  C4, amended. On a connected client that exposes its subscription table, a second
  \<^verbatim>\<open>subscribe_to_tokens(R)\<close> with the same \<open>R\<close> changes nothing: it issues no subscribe,
  no unsubscribe and no mode call. On a client without the table the second call issues
  no unsubscribe, and subscribes and sets the mode of the whole of the permanent set joined
  with \<open>R\<close> again, unless that set is empty.
\<close>

theorem subscribe_to_tokens_twice:
  assumes "kws s = Some k" and "is_connected k"
  shows "(subscriptions k \<noteq> None \<longrightarrow>
            subscribe_to_tokens tokens (subscribe_to_tokens tokens s) = subscribe_to_tokens tokens s
          \<and> new_calls (subscribe_to_tokens tokens s)
               (subscribe_to_tokens tokens (subscribe_to_tokens tokens s)) = [])
       \<and> (subscriptions k = None \<longrightarrow>
            new_calls (subscribe_to_tokens tokens s)
               (subscribe_to_tokens tokens (subscribe_to_tokens tokens s)) =
              (if always_subscribed_tokens s \<union> set tokens = {} then []
               else [Subscribe (tid k) (always_subscribed_tokens s \<union> set tokens),
                     SetModeFull (tid k) (always_subscribed_tokens s \<union> set tokens)]))"
proof (intro conjI impI)
  let ?s1 = "subscribe_to_tokens tokens s"
  have a1: "always_subscribed_tokens ?s1 = always_subscribed_tokens s"
    by (rule always_subscribe_to_tokens)
  {
    assume "subscriptions k \<noteq> None"
    then obtain S where S: "subscriptions k = Some S" by auto
    let ?k1 = "k\<lparr>subscriptions := Some (always_subscribed_tokens s \<union> set tokens)\<rparr>"
    have k1: "kws ?s1 = Some ?k1"
      by (rule kws_subscribe_to_tokens [OF assms S])
    show same: "subscribe_to_tokens tokens ?s1 = ?s1"
      using k1 a1 assms(2)
      by (simp add: subscribe_to_tokens_def [of tokens ?s1] Let_def current_subscriptions_def)
    show "new_calls ?s1 (subscribe_to_tokens tokens ?s1) = []"
      unfolding same by (simp add: new_calls_def)
  }
  {
    assume N: "subscriptions k = None"
    have k1: "kws ?s1 = Some k"
      by (rule kws_subscribe_to_tokens_no_table [OF assms N])
    show "new_calls ?s1 (subscribe_to_tokens tokens ?s1) =
              (if always_subscribed_tokens s \<union> set tokens = {} then []
               else [Subscribe (tid k) (always_subscribed_tokens s \<union> set tokens),
                     SetModeFull (tid k) (always_subscribed_tokens s \<union> set tokens)])"
      using new_calls_no_table [OF k1 assms(2) N, of tokens] by (simp add: a1)
  }
qed

theorem subscribe_to_tokens_twice_witness:
  "kws (connected_state (Some {})) = Some \<lparr>tid = 0, is_connected = True, subscriptions = Some {256265}\<rparr>
   \<and> new_calls (subscribe_to_tokens [260105] (connected_state (Some {})))
       (subscribe_to_tokens [260105] (subscribe_to_tokens [260105] (connected_state (Some {})))) = []"
proof -
  have k: "kws (connected_state (Some {})) = Some \<lparr>tid = 0, is_connected = True, subscriptions = Some {256265}\<rparr>"
    by (simp add: connected_state_eq)
  show ?thesis
    using k subscribe_to_tokens_twice [OF k, of "[260105]"] by (simp add: new_calls_def)
qed

subsection \<open>Reading the whole cache\<close>

text \<open>
  C5, as stated, at a concrete input: the mapping returned by \<^verbatim>\<open>get_all_live_quotes\<close>
  on the empty cache has an entry for 256265 once a tick for it has been stored.
\<close>

theorem get_all_live_quotes_sees_later_tick:
  "dicts (on_ticks 0 [nifty_tick] initial_state) (get_all_live_quotes initial_state) 256265
     \<noteq> dicts initial_state (get_all_live_quotes initial_state) 256265"
  by (simp add: on_ticks_def get_all_live_quotes_def initial_state_def store_tick_def nifty_tick_def)

text \<open>
  C5, amended. \<^verbatim>\<open>get_all_live_quotes\<close> returns the live dictionary itself: after any
  later batch of ticks the mapping it returned is the current cache. Only
  \<^verbatim>\<open>clear_live_quotes\<close>, which binds the cache to a new dictionary, leaves a mapping
  returned earlier as it was.
\<close>

theorem get_all_live_quotes_alias:
  "dicts (on_ticks now ticks s) (get_all_live_quotes s) = cache (on_ticks now ticks s)
   \<and> get_all_live_quotes (on_ticks now ticks s) = get_all_live_quotes s
   \<and> (live_quotes s < next_ref s \<longrightarrow>
        dicts (clear_live_quotes s) (get_all_live_quotes s) = dicts s (get_all_live_quotes s))"
  by (simp add: on_ticks_def get_all_live_quotes_def cache_def clear_live_quotes_def)

theorem get_all_live_quotes_alias_witness:
  "live_quotes ticking_state < next_ref ticking_state
   \<and> dicts ticking_state (get_all_live_quotes ticking_state) 256265 \<noteq> None
   \<and> dicts (clear_live_quotes ticking_state) (get_all_live_quotes ticking_state)
       = dicts ticking_state (get_all_live_quotes ticking_state)"
proof -
  have lt: "live_quotes ticking_state < next_ref ticking_state"
    by (simp add: ticking_state_def connected_state_eq on_ticks_def)
  have q: "dicts ticking_state (get_all_live_quotes ticking_state) 256265 \<noteq> None"
    by (simp add: ticking_state_def connected_state_eq on_ticks_def get_all_live_quotes_def
        store_tick_def nifty_tick_def)
  show ?thesis
    using lt q get_all_live_quotes_alias [of 0 "[]" ticking_state] by blast
qed

subsection \<open>Stopping\<close>

lemma ticking_state_quote:
  "get_live_quote ticking_state 256265 =
     Some \<lparr>instrument_token = 256265, last_price = Some 24853, ohlc = None, volume = None,
           oi = None, depth = None, timestamp = 0\<rparr>"
  by (simp add: ticking_state_def connected_state_eq on_ticks_def get_live_quote_def
      store_tick_def nifty_tick_def)

lemma get_live_quote_stop: "get_live_quote (stop_websocket s) tok = get_live_quote s tok"
  by (simp add: stop_websocket_def get_live_quote_def split: option.splits)

text \<open>
  C6, as stated, at a concrete input: the connected module holds a tick for 256265, and
  after \<^verbatim>\<open>stop_websocket\<close> \<^verbatim>\<open>get_live_quote(256265)\<close> still returns it.
\<close>

theorem stop_websocket_keeps_quotes:
  "ws_connected ticking_state
   \<and> get_live_quote (stop_websocket ticking_state) 256265 =
     Some \<lparr>instrument_token = 256265, last_price = Some 24853, ohlc = None, volume = None,
           oi = None, depth = None, timestamp = 0\<rparr>"
  using ticking_state_quote
  by (simp add: get_live_quote_stop ws_connected_def ticking_state_def connected_state_eq on_ticks_def)

text \<open>
  C6, amended. \<^verbatim>\<open>stop_websocket\<close> leaves the quote cache as it was; it is
  \<^verbatim>\<open>clear_live_quotes\<close>, which every caller runs right after it, that makes
  \<^verbatim>\<open>get_live_quote\<close> return nothing for every token. \<^verbatim>\<open>stop_websocket\<close> drops the
  client object and leaves the permanent set empty.
\<close>

theorem stop_websocket_then_clear:
  "get_live_quote (clear_live_quotes (stop_websocket s)) tok = None
   \<and> get_live_quote (stop_websocket s) tok = get_live_quote s tok
   \<and> kws (stop_websocket s) = None
   \<and> (module_inv s \<longrightarrow> always_subscribed_tokens (stop_websocket s) = {})"
  by (simp add: stop_websocket_def get_live_quote_def clear_live_quotes_def module_inv_def
      split: option.splits)

theorem stop_websocket_then_clear_witness:
  "module_inv ticking_state
   \<and> always_subscribed_tokens ticking_state = {256265}
   \<and> always_subscribed_tokens (stop_websocket ticking_state) = {}
   \<and> get_live_quote (clear_live_quotes (stop_websocket ticking_state)) 256265 = None"
  using stop_websocket_then_clear [of ticking_state 256265]
  by (simp add: module_inv_def ticking_state_def connected_state_eq on_ticks_def)

text \<open>The condition on the permanent set holds in every state the module can reach.\<close>

lemma module_inv_initial: "module_inv initial_state"
  by (simp add: module_inv_def initial_state_def)

lemma module_inv_start:
  "module_inv s \<Longrightarrow> module_inv (start_websocket fresh api_k access_t initial_tokens s)"
  by (simp add: module_inv_def start_websocket_def Let_def)

lemma module_inv_stop: "module_inv s \<Longrightarrow> module_inv (stop_websocket s)"
  by (simp add: module_inv_def stop_websocket_def split: option.splits)

lemma module_inv_subscribe: "module_inv s \<Longrightarrow> module_inv (subscribe_to_tokens tokens s)"
  by (simp add: module_inv_def subscribe_to_tokens_def Let_def split: option.splits)

lemma module_inv_on_ticks: "module_inv s \<Longrightarrow> module_inv (on_ticks now ticks s)"
  by (simp add: module_inv_def on_ticks_def)

lemma module_inv_clear: "module_inv s \<Longrightarrow> module_inv (clear_live_quotes s)"
  by (simp add: module_inv_def clear_live_quotes_def)

lemma module_inv_on_connect: "module_inv s \<Longrightarrow> module_inv (on_connect s)"
  by (simp add: module_inv_def on_connect_def split: option.splits)

lemma module_inv_opened: "module_inv s \<Longrightarrow> module_inv (connection_opened s)"
  by (simp add: module_inv_def connection_opened_def split: option.splits)

lemma reachable_module_inv: "reachable s \<Longrightarrow> module_inv s"
  by (induction rule: reachable.induct)
     (simp_all add: module_inv_initial module_inv_start module_inv_stop module_inv_subscribe
        module_inv_on_ticks module_inv_clear module_inv_opened module_inv_on_connect)

subsection \<open>Starting\<close>

text \<open>
  C7, as stated, at a concrete input: \<^verbatim>\<open>start_websocket\<close> on the connected module
  stops client 0 and puts a new, unconnected client 1 without subscriptions in its place.
\<close>

theorem start_websocket_replaces_connected_client:
  "ws_connected (connected_state (Some {}))
   \<and> kws (start_websocket (Some {}) (Some ''key'') (Some ''token'') (Some [256265])
            (connected_state (Some {})))
       = Some \<lparr>tid = 1, is_connected = False, subscriptions = Some {}\<rparr>
   \<and> kws (connected_state (Some {}))
       = Some \<lparr>tid = 0, is_connected = True, subscriptions = Some {256265}\<rparr>
   \<and> new_calls (connected_state (Some {}))
        (start_websocket (Some {}) (Some ''key'') (Some ''token'') (Some [256265])
            (connected_state (Some {})))
       = [Stop 0, Connect 1]"
  by (simp add: connected_state_eq start_websocket_def falsy_str_def Let_def ws_connected_def
      new_calls_def)

text \<open>
  C7, amended. Called with a key and a token while a client object exists,
  \<^verbatim>\<open>start_websocket\<close> never keeps it: a connected client is stopped, and in either case a
  new client object takes its place and a new connection attempt is started; the
  permanent set is extended by the initial tokens. Only with an empty key or token does it
  leave the client, the permanent set and the transport alone.
\<close>

theorem start_websocket_replaces:
  assumes "kws s = Some k"
  shows "(\<not> falsy_str api_k \<and> \<not> falsy_str access_t \<longrightarrow>
           kws (start_websocket fresh api_k access_t initial_tokens s)
             = Some \<lparr>tid = next_tid s, is_connected = False, subscriptions = fresh\<rparr>
         \<and> new_calls s (start_websocket fresh api_k access_t initial_tokens s)
             = (if is_connected k then [Stop (tid k)] else []) @ [Connect (next_tid s)]
         \<and> always_subscribed_tokens (start_websocket fresh api_k access_t initial_tokens s)
             = always_subscribed_tokens s
               \<union> (case initial_tokens of None \<Rightarrow> {} | Some toks \<Rightarrow> set toks))
       \<and> (falsy_str api_k \<or> falsy_str access_t \<longrightarrow>
           start_websocket fresh api_k access_t initial_tokens s
             = s\<lparr>api_key_ws := api_k, access_token_ws := access_t\<rparr>)"
  using assms
  by (auto simp: start_websocket_def Let_def new_calls_def split: option.splits)

theorem start_websocket_replaces_witness:
  "kws (connected_state (Some {})) = Some \<lparr>tid = 0, is_connected = True, subscriptions = Some {256265}\<rparr>
   \<and> \<not> falsy_str (Some ''key'') \<and> \<not> falsy_str (Some ''token'')
   \<and> falsy_str None
   \<and> kws (start_websocket (Some {}) (Some ''key'') (Some ''token'') (Some [256265])
            (connected_state (Some {})))
       = Some \<lparr>tid = 1, is_connected = False, subscriptions = Some {}\<rparr>
   \<and> start_websocket (Some {}) None (Some ''token'') (Some [256265]) (connected_state (Some {}))
       = (connected_state (Some {}))\<lparr>api_key_ws := None, access_token_ws := Some ''token''\<rparr>"
proof -
  have k: "kws (connected_state (Some {})) = Some \<lparr>tid = 0, is_connected = True, subscriptions = Some {256265}\<rparr>"
    by (simp add: connected_state_eq)
  have n: "next_tid (connected_state (Some {})) = 1"
    by (simp add: connected_state_eq)
  show ?thesis
    using k n
      start_websocket_replaces [OF k, of "Some ''key''" "Some ''token''" "Some {}" "Some [256265]"]
      start_websocket_replaces [OF k, of None "Some ''token''" "Some {}" "Some [256265]"]
    by (simp add: falsy_str_def)
qed


section \<open>Properties of the window selection\<close>

subsection \<open>The Python primitives\<close>

lemma index_of_Some:
  "index_of xs v = Some i \<Longrightarrow> i < length xs \<and> xs ! i = v"
  by (induction xs arbitrary: i) (auto split: if_splits)

lemma index_of_None: "index_of xs v = None \<longleftrightarrow> v \<notin> set xs"
  by (induction xs) auto

lemma index_of_mem: "v \<in> set xs \<Longrightarrow> \<exists>i. index_of xs v = Some i"
  using index_of_None [of xs v] by (cases "index_of xs v") auto

lemma min_key_from_mem: "min_key_from key best xs \<in> insert best (set xs)"
  by (induction xs arbitrary: best) (auto split: if_splits)

lemma min_key_from_le_best: "key (min_key_from key best xs) \<le> key best"
proof (induction xs arbitrary: best)
  case Nil
  show ?case by simp
next
  case (Cons x xs)
  show ?case
    using Cons.IH [of "if key x < key best then x else best"] by (auto split: if_splits)
qed

lemma min_key_from_le: "x \<in> set xs \<Longrightarrow> key (min_key_from key best xs) \<le> key x"
proof (induction xs arbitrary: best)
  case Nil
  then show ?case by simp
next
  case (Cons y ys)
  show ?case
  proof (cases "x = y")
    case True
    have "key (min_key_from key (if key y < key best then y else best) ys)
            \<le> key (if key y < key best then y else best)"
      by (rule min_key_from_le_best)
    with True show ?thesis by (auto split: if_splits)
  next
    case False
    with Cons.prems have "x \<in> set ys" by simp
    then show ?thesis using Cons.IH by simp
  qed
qed

lemma py_min_key_least:
  assumes "xs \<noteq> []"
  shows "\<exists>a. py_min_key key xs = Inr a \<and> a \<in> set xs \<and> (\<forall>x\<in>set xs. key a \<le> key x)"
proof (cases xs)
  case Nil
  with assms show ?thesis by simp
next
  case (Cons y ys)
  have "min_key_from key y ys \<in> set xs"
    using min_key_from_mem [of key y ys] Cons by simp
  moreover have "\<forall>x\<in>set xs. key (min_key_from key y ys) \<le> key x"
    using min_key_from_le [of _ ys key y] min_key_from_le_best [of key y ys] Cons by auto
  ultimately show ?thesis
    using Cons by (simp add: py_min_key_def)
qed

lemma py_round_nearest: "\<bar>rat_of_int (py_round x) - x\<bar> \<le> 1 / 2"
proof -
  define f where "f = \<lfloor>x\<rfloor>"
  define d where "d = x - rat_of_int f"
  have d0: "0 \<le> d" and d1: "d < 1"
    unfolding d_def f_def by linarith+
  have r: "py_round x = (if d < 1 / 2 then f else if 1 / 2 < d then f + 1
                         else if even f then f else f + 1)"
    by (simp add: py_round_def Let_def f_def d_def)
  have x: "x = rat_of_int f + d"
    by (simp add: d_def)
  consider "d < 1 / 2" | "1 / 2 < d" | "d = 1 / 2"
    by linarith
  then show ?thesis
  proof cases
    case 1
    with r have "py_round x = f" by simp
    with x d0 1 show ?thesis by simp
  next
    case 2
    with r have "py_round x = f + 1" by simp
    with x d1 2 show ?thesis by simp
  next
    case 3
    with r have "py_round x = f \<or> py_round x = f + 1" by simp
    with x 3 show ?thesis by auto
  qed
qed

lemma floor_example: "\<lfloor>24853 / 50 :: rat\<rfloor> = 497"
  by (simp add: floor_eq_iff)

lemma py_round_example: "py_round (24853 / 50) = 497"
  by (simp add: py_round_def Let_def floor_example)

lemma py_round_of_int: "py_round (rat_of_int n) = n"
  by (simp add: py_round_def Let_def)

lemma py_round_one: "py_round 1 = 1" "py_round 5 = 5"
  using py_round_of_int [of 1] py_round_of_int [of 5] by simp_all

subsection \<open>The anchor strike\<close>

lemma locate_atm_unfold:
  assumes "strike_step \<noteq> 0"
    and "r = rat_of_int (py_round (price / rat_of_int strike_step) * strike_step)"
  shows "locate_atm strikes price strike_step =
     (case index_of strikes r of
        Some i \<Rightarrow> Inr (r, i)
      | None \<Rightarrow>
          (case py_min_key (\<lambda>x. \<bar>x - price\<bar>) strikes of
             Inl e \<Rightarrow> Inl e
           | Inr closest \<Rightarrow>
               (case index_of strikes closest of
                  Some i \<Rightarrow> Inr (closest, i)
                | None \<Rightarrow> Inl ValueError)))"
  unfolding locate_atm_def Let_def assms(2) using assms(1) by (simp only: if_False)

lemma locate_atm_found:
  assumes "strike_step \<noteq> 0" 
    and r: "r = rat_of_int (py_round (price / rat_of_int strike_step) * strike_step)"
    and i: "index_of strikes r = Some i"
  shows "locate_atm strikes price strike_step = Inr (r, i)"
  by (simp add: locate_atm_unfold [OF assms(1) r] i)

lemma locate_atm_closest:
  assumes "strike_step \<noteq> 0" 
    and r: "r = rat_of_int (py_round (price / rat_of_int strike_step) * strike_step)"
    and none: "index_of strikes r = None"
    and a: "py_min_key (\<lambda>x. \<bar>x - price\<bar>) strikes = Inr a"
    and i: "index_of strikes a = Some i"
  shows "locate_atm strikes price strike_step = Inr (a, i)"
  by (simp add: locate_atm_unfold [OF assms(1) r] none a i)

lemma locate_atm_spec:
  assumes "strike_step \<noteq> 0" and "strikes \<noteq> []"
    and r: "r = rat_of_int (py_round (price / rat_of_int strike_step) * strike_step)"
  shows "\<exists>a i. locate_atm strikes price strike_step = Inr (a, i)
            \<and> index_of strikes a = Some i
            \<and> (r \<in> set strikes \<longrightarrow> a = r)
            \<and> (r \<notin> set strikes \<longrightarrow>
                 a \<in> set strikes \<and> (\<forall>x\<in>set strikes. \<bar>a - price\<bar> \<le> \<bar>x - price\<bar>))"
proof (cases "r \<in> set strikes")
  case True
  from index_of_mem [OF True] obtain i where i: "index_of strikes r = Some i" ..
  have loc: "locate_atm strikes price strike_step = Inr (r, i)"
    by (rule locate_atm_found [OF assms(1) r i])
  show ?thesis
  proof (intro exI conjI impI)
    show "locate_atm strikes price strike_step = Inr (r, i)" by (rule loc)
    show "index_of strikes r = Some i" by (rule i)
    show "r = r" ..
    show "r \<in> set strikes" by (rule True)
    show "\<forall>x\<in>set strikes. \<bar>r - price\<bar> \<le> \<bar>x - price\<bar>" if "r \<notin> set strikes"
      using that True by simp
  qed
next
  case False
  then have none: "index_of strikes r = None"
    by (simp add: index_of_None)
  from py_min_key_least [OF assms(2), of "\<lambda>x. \<bar>x - price\<bar>"]
  obtain a where a: "py_min_key (\<lambda>x. \<bar>x - price\<bar>) strikes = Inr a" "a \<in> set strikes"
      "\<forall>x\<in>set strikes. \<bar>a - price\<bar> \<le> \<bar>x - price\<bar>"
    by (elim exE conjE)
  from index_of_mem [OF a(2)] obtain i where i: "index_of strikes a = Some i" ..
  have loc: "locate_atm strikes price strike_step = Inr (a, i)"
    by (rule locate_atm_closest [OF assms(1) r none a(1) i])
  show ?thesis
  proof (intro exI conjI impI)
    show "locate_atm strikes price strike_step = Inr (a, i)" by (rule loc)
    show "index_of strikes a = Some i" by (rule i)
    show "a = r" if "r \<in> set strikes" using that False by simp
    show "a \<in> set strikes" by (rule a(2))
    show "\<forall>x\<in>set strikes. \<bar>a - price\<bar> \<le> \<bar>x - price\<bar>" by (rule a(3))
  qed
qed

text \<open>
  C8. For a positive strike step and a non-empty strike list, the anchor is
  \<open>round(price / step) * step\<close> when that value is a known strike, and otherwise a known
  strike at least absolute distance from the price; \<open>round\<close> is to the nearest integer.
  The anchor comes with its index in the list. Price 24853 with step 50 gives 24850.
\<close>

theorem locate_atm_anchor:
  assumes "0 < strike_step" and "strikes \<noteq> []"
  shows "(\<exists>a i. locate_atm strikes price strike_step = Inr (a, i)
            \<and> index_of strikes a = Some i
            \<and> (rat_of_int (py_round (price / rat_of_int strike_step) * strike_step) \<in> set strikes
                 \<longrightarrow> a = rat_of_int (py_round (price / rat_of_int strike_step) * strike_step))
            \<and> (rat_of_int (py_round (price / rat_of_int strike_step) * strike_step) \<notin> set strikes
                 \<longrightarrow> a \<in> set strikes \<and> (\<forall>x\<in>set strikes. \<bar>a - price\<bar> \<le> \<bar>x - price\<bar>)))
       \<and> \<bar>rat_of_int (py_round (price / rat_of_int strike_step)) - price / rat_of_int strike_step\<bar>
            \<le> 1 / 2
       \<and> locate_atm [24750, 24800, 24850, 24900, 24950] 24853 50 = Inr (24850, 2)"
proof (intro conjI)
  from assms(1) have nz: "strike_step \<noteq> 0" by simp
  show "\<exists>a i. locate_atm strikes price strike_step = Inr (a, i)
            \<and> index_of strikes a = Some i
            \<and> (rat_of_int (py_round (price / rat_of_int strike_step) * strike_step) \<in> set strikes
                 \<longrightarrow> a = rat_of_int (py_round (price / rat_of_int strike_step) * strike_step))
            \<and> (rat_of_int (py_round (price / rat_of_int strike_step) * strike_step) \<notin> set strikes
                 \<longrightarrow> a \<in> set strikes \<and> (\<forall>x\<in>set strikes. \<bar>a - price\<bar> \<le> \<bar>x - price\<bar>))"
    by (rule locate_atm_spec [OF nz assms(2) refl])
  show "\<bar>rat_of_int (py_round (price / rat_of_int strike_step)) - price / rat_of_int strike_step\<bar>
            \<le> 1 / 2"
    by (rule py_round_nearest)
  show "locate_atm [24750, 24800, 24850, 24900, 24950] 24853 50 = Inr (24850, 2)"
    by (simp add: locate_atm_def py_round_example)
qed

theorem locate_atm_anchor_witness:
  "(0::int) < 50 \<and> [24750, 24800, 24900, 24950 :: rat] \<noteq> []
   \<and> (\<exists>a i. locate_atm [24750, 24800, 24900, 24950] 24853 50 = Inr (a, i)
          \<and> index_of [24750, 24800, 24900, 24950] a = Some i)"
proof -
  have h1: "(0::int) < 50" by simp
  have h2: "[24750, 24800, 24900, 24950 :: rat] \<noteq> []" by simp
  have "\<exists>a i. locate_atm [24750, 24800, 24900, 24950] 24853 50 = Inr (a, i)
          \<and> index_of [24750, 24800, 24900, 24950] a = Some i"
    using locate_atm_anchor [OF h1 h2, of 24853] by blast
  with h1 h2 show ?thesis by blast
qed

subsection \<open>The window around the anchor\<close>

lemma length_py_slice:
  assumes "0 \<le> a" and "a \<le> b" and "b \<le> int (length xs)"
  shows "int (length (py_slice xs a b)) = b - a"
  using assms by (simp add: py_slice_def Let_def min_def; linarith)

lemma nth_in_py_slice:
  assumes "0 \<le> a" and "a \<le> int i" and "int i < b" and "i < length xs"
  shows "xs ! i \<in> set (py_slice xs a b)"
proof -
  define lo where "lo = nat a"
  define k where "k = nat (min b (int (length xs)) - a)"
  have sl: "py_slice xs a b = take k (drop lo xs)"
    using assms by (simp add: py_slice_def Let_def min_def lo_def k_def)
  have lo_le: "lo \<le> i" using assms by (simp add: lo_def)
  have lt: "i - lo < k" using assms by (simp add: lo_def k_def min_def) linarith
  have lt2: "i - lo < length (drop lo xs)" using assms lo_le by simp
  have "take k (drop lo xs) ! (i - lo) = xs ! i"
    using lt lo_le assms(4) by simp
  moreover have "i - lo < length (take k (drop lo xs))"
    using lt lt2 by simp
  ultimately show ?thesis
    unfolding sl by (metis nth_mem)
qed

lemma window_around_spec:
  assumes i: "i < length strikes" and n: "0 \<le> n"
  shows "int (length (window_around strikes (int i) n)) =
           (if 2 * n + 1 \<le> int (length strikes) then 2 * n + 1
            else min (int (length strikes)) (int i + n + 1))"
    and "strikes ! i \<in> set (window_around strikes (int i) n)"
proof -
  define L where "L = int (length strikes)"
  define W where "W = 2 * n + 1"
  define s0 where "s0 = max 0 (int i - n)"
  define e where "e = min L (int i + n + 1)"
  define s1 where "s1 = (if e - s0 < W then max 0 (e - W) else s0)"
  have iL: "int i < L" using i by (simp add: L_def)
  have b1: "0 \<le> s1" by (simp add: s1_def s0_def)
  have b2: "s1 \<le> int i" using n by (auto simp: s1_def s0_def e_def W_def)
  have b3: "int i < e" using iL n by (simp add: e_def)
  have b4: "e \<le> L" by (simp add: e_def)
  have len_disp: "int (length (py_slice strikes s1 e)) = e - s1"
    using b1 b2 b3 b4 by (intro length_py_slice) (simp_all add: L_def)
  have mem_disp: "strikes ! i \<in> set (py_slice strikes s1 e)"
    using b1 b2 b3 i by (intro nth_in_py_slice)
  have w: "window_around strikes (int i) n =
      (if e - s1 < W \<and> W \<le> L then py_slice strikes 0 W else py_slice strikes s1 e)"
    using len_disp
    by (simp add: window_around_def Let_def L_def [symmetric] W_def [symmetric]
        s0_def [symmetric] e_def [symmetric] s1_def [symmetric])
  have width: "e - s1 \<le> W" using n iL by (auto simp: s1_def s0_def e_def W_def)
  show "int (length (window_around strikes (int i) n)) =
           (if 2 * n + 1 \<le> int (length strikes) then 2 * n + 1
            else min (int (length strikes)) (int i + n + 1))"
  proof (cases "W \<le> L")
    case True
    have W0: "0 \<le> W" using n by (simp add: W_def)
    have "int (length (py_slice strikes 0 W)) = W"
      using True W0 length_py_slice [of 0 W strikes] by (simp add: L_def)
    with True width len_disp show ?thesis
      unfolding w by (auto simp: W_def L_def)
  next
    case False
    then have "s1 = 0" using b4 by (auto simp: s1_def s0_def)
    with False len_disp show ?thesis
      unfolding w by (simp add: W_def L_def e_def)
  qed
  show "strikes ! i \<in> set (window_around strikes (int i) n)"
  proof (cases "e - s1 < W \<and> W \<le> L")
    case True
    have "int i < W"
      using True n iL by (auto simp: s1_def s0_def e_def W_def split: if_splits)
    then have "strikes ! i \<in> set (py_slice strikes 0 W)"
      using i by (intro nth_in_py_slice) simp_all
    with True show ?thesis unfolding w by simp
  next
    case False
    with mem_disp show ?thesis unfolding w by auto
  qed
qed

lemma window_around_zero:
  assumes "i < length strikes"
  shows "window_around strikes (int i) 0 = [strikes ! i]"
proof -
  have len: "length (window_around strikes (int i) 0) = 1"
    using window_around_spec(1) [OF assms, of 0] assms by simp
  then obtain x where x: "window_around strikes (int i) 0 = [x]"
    by (cases "window_around strikes (int i) 0") auto
  with window_around_spec(2) [OF assms, of 0] show ?thesis by simp
qed

lemma sort_five: "sort (remdups [100, 200, 300, 400, 500 :: rat]) = [100, 200, 300, 400, 500]"
  by simp

text \<open>
  C9 at a concrete input: five strikes 100..500, three strikes asked for on each side
  (a window of seven). With the price at the lowest strike the selection returns four
  strikes, not all five; with the price at the highest strike it returns all five.
\<close>

theorem window_short_list_low_end:
  "select_strikes (Some 3) (Some 100) 100 [100, 200, 300, 400, 500] = Window [100, 200, 300, 400]
   \<and> select_strikes (Some 3) (Some 500) 100 [100, 200, 300, 400, 500]
       = Window [100, 200, 300, 400, 500]"
proof -
  have lo: "locate_atm [100, 200, 300, 400, 500] 100 100 = Inr (100, 0)"
    by (simp add: locate_atm_def py_round_one)
  have hi: "locate_atm [100, 200, 300, 400, 500] 500 100 = Inr (500, 4)"
    by (simp add: locate_atm_def py_round_one)
  have wlo: "window_around [100, 200, 300, 400, 500] 0 3 = [100, 200, 300, 400]"
    by (simp add: window_around_def py_slice_def Let_def)
  have whi: "window_around [100, 200, 300, 400, 500] 4 3 = [100, 200, 300, 400, 500]"
    by (simp add: window_around_def py_slice_def Let_def)
  show ?thesis
    by (simp add: select_strikes_def normalise_otm_def sort_five lo hi wlo whi Let_def
        del: sort_key_simps remdups.simps)
qed

subsection \<open>Selection without a reference price\<close>

lemma poll_live_quote_none:
  "(\<forall>i. attempt \<le> i \<and> i < attempt + remaining \<longrightarrow> observe i = None)
     \<Longrightarrow> poll_live_quote observe attempt remaining = None"
proof (induction remaining arbitrary: attempt)
  case 0
  show ?case by simp
next
  case (Suc remaining)
  from Suc.prems have here: "observe attempt = None" by simp
  from Suc.prems have "\<forall>i. Suc attempt \<le> i \<and> i < Suc attempt + remaining \<longrightarrow> observe i = None"
    by simp
  then have "poll_live_quote observe (Suc attempt) remaining = None"
    by (rule Suc.IH)
  with here show ?case by simp
qed

lemma resolve_ltp_no_cache:
  assumes "no_cached_quote observe"
  shows "resolve_ltp observe rest_ltp = rest_ltp"
proof -
  have "poll_live_quote observe 0 max_retries = None"
    using assms by (intro poll_live_quote_none) (simp add: no_cached_quote_def)
  then show ?thesis by (simp add: resolve_ltp_def)
qed

lemma normalise_otm_nonneg: "0 \<le> normalise_otm v"
  by (simp add: normalise_otm_def split: option.splits)

lemma py_slice_prefix:
  assumes "0 \<le> b"
  shows "py_slice xs 0 b = take (nat b) xs"
  using assms by (simp add: py_slice_def Let_def min_def)

lemma sort_remdups_nonempty: "xs \<noteq> [] \<Longrightarrow> sort (remdups xs) \<noteq> []"
proof -
  assume "xs \<noteq> []"
  then have "set (sort (remdups xs)) \<noteq> {}" by simp
  then show ?thesis by fastforce
qed

lemma select_strikes_no_price:
  "select_strikes num_otm None strike_step option_strikes =
     (if option_strikes = [] then NoOptionsFound
      else Window (take (nat (2 * normalise_otm num_otm + 1)) (sort (remdups option_strikes))))"
proof (cases "option_strikes = []")
  case True
  then show ?thesis by (simp add: select_strikes_def Let_def)
next
  case False
  let ?ss = "sort (remdups option_strikes)"
  let ?W = "2 * normalise_otm num_otm + 1"
  have ne: "?ss \<noteq> []" using False by (rule sort_remdups_nonempty)
  have W: "1 \<le> ?W" using normalise_otm_nonneg [of num_otm] by simp
  have "py_slice ?ss 0 (min (int (length ?ss)) ?W) = take (nat (min (int (length ?ss)) ?W)) ?ss"
    using W by (intro py_slice_prefix) simp
  also have "\<dots> = take (nat ?W) ?ss"
    using W by (simp add: min_def)
  finally have sl: "py_slice ?ss 0 (min (int (length ?ss)) ?W) = take (nat ?W) ?ss" .
  have tk: "take (nat ?W) ?ss \<noteq> []"
    using ne W by simp
  show ?thesis
    using False ne tk by (simp add: select_strikes_def Let_def sl del: length_sort)
qed

text \<open>
  C1, as stated, at a concrete input: no cached quote at any of the three attempts, the
  REST call fails, the expiry has calls and puts at strikes 100 to 400, one strike asked
  for on each side. The selection returns the strikes 100, 200 and 300.
\<close>

theorem plot_option_chain_window_without_price_shows_strikes:
  "plot_option_chain_window (Some 1) (\<lambda>_. None) None 50 [100, 100, 200, 200, 300, 300, 400, 400]
     = Window [100, 200, 300]"
proof -
  have "sort (remdups [100, 100, 200, 200, 300, 300, 400, 400 :: rat]) = [100, 200, 300, 400]"
    by simp
  then show ?thesis
    by (simp add: plot_option_chain_window_def resolve_ltp_no_cache no_cached_quote_def
        select_strikes_no_price normalise_otm_def)
qed

text \<open>
  C1, amended. With no cached quote at any attempt and a failed REST call the selection
  does not raise and has no outcome of its own for the missing price: without options for
  the expiry it reports that none were found, and otherwise it returns the lowest
  \<open>2 * n + 1\<close> strikes (all of them when there are fewer). A price that the REST call
  does return is used as the reference price whatever its sign.
\<close>

theorem plot_option_chain_window_without_price:
  assumes "no_cached_quote observe"
  shows "plot_option_chain_window num_otm observe None strike_step option_strikes =
           (if option_strikes = [] then NoOptionsFound
            else Window (take (nat (2 * normalise_otm num_otm + 1))
                           (sort (remdups option_strikes))))
       \<and> plot_option_chain_window num_otm observe (Some price) strike_step option_strikes =
           select_strikes num_otm (Some price) strike_step option_strikes"
  using assms
  by (simp add: plot_option_chain_window_def resolve_ltp_no_cache select_strikes_no_price)

theorem plot_option_chain_window_without_price_witness:
  "no_cached_quote (\<lambda>_. None)
   \<and> plot_option_chain_window None (\<lambda>_. None) None 50 [300, 100, 200] = Window [100, 200, 300]"
proof -
  have h: "no_cached_quote (\<lambda>_. None)"
    by (simp add: no_cached_quote_def)
  have "sort (remdups [300, 100, 200 :: rat]) = [100, 200, 300]" by simp
  then show ?thesis
    using plot_option_chain_window_without_price [OF h, of None 50 "[300, 100, 200]"] h
    by (simp add: normalise_otm_def)
qed

end
